theory Spec2Isabelle
  imports Main
begin

section \<open>The object store\<close>

text \<open>
  The Python objects of \<^verbatim>\<open>trees/linked_binary_tree.py\<close> are mutable and shared, and
  the code compares them with \<^verbatim>\<open>is\<close>. A node object is an address into a store of
  node records, a tree object is an identifier into a store of tree records, and
  \<^verbatim>\<open>is\<close> is equality of addresses. Allocation (\<^verbatim>\<open>self._Node(...)\<close>) takes the next
  unused address.
\<close>

type_synonym addr = nat
type_synonym tree_id = nat

record 'a node =
  node_element :: 'a
  node_parent :: "addr option"
  node_left :: "addr option"
  node_right :: "addr option"

record tree =
  py_type :: nat
  tree_root :: "addr option"
  tree_size :: int

record 'a heap =
  nodes :: "addr \<Rightarrow> 'a node"
  trees :: "tree_id \<Rightarrow> tree"
  next_node :: addr

datatype position = Position (container: tree_id) (node: addr)

datatype error =
    TypeError string | ValueError string | AttributeError
  | Empty string | IndexError | ZeroDivisionError

text \<open>Attribute assignments on a node or a tree object.\<close>

definition set_element :: "'a heap \<Rightarrow> addr \<Rightarrow> 'a \<Rightarrow> 'a heap" where
  "set_element h n v = h\<lparr>nodes := (nodes h)(n := (nodes h n)\<lparr>node_element := v\<rparr>)\<rparr>"

definition set_parent :: "'a heap \<Rightarrow> addr \<Rightarrow> addr option \<Rightarrow> 'a heap" where
  "set_parent h n v = h\<lparr>nodes := (nodes h)(n := (nodes h n)\<lparr>node_parent := v\<rparr>)\<rparr>"

definition set_left :: "'a heap \<Rightarrow> addr \<Rightarrow> addr option \<Rightarrow> 'a heap" where
  "set_left h n v = h\<lparr>nodes := (nodes h)(n := (nodes h n)\<lparr>node_left := v\<rparr>)\<rparr>"

definition set_right :: "'a heap \<Rightarrow> addr \<Rightarrow> addr option \<Rightarrow> 'a heap" where
  "set_right h n v = h\<lparr>nodes := (nodes h)(n := (nodes h n)\<lparr>node_right := v\<rparr>)\<rparr>"

definition set_root :: "'a heap \<Rightarrow> tree_id \<Rightarrow> addr option \<Rightarrow> 'a heap" where
  "set_root h t v = h\<lparr>trees := (trees h)(t := (trees h t)\<lparr>tree_root := v\<rparr>)\<rparr>"

definition set_size :: "'a heap \<Rightarrow> tree_id \<Rightarrow> int \<Rightarrow> 'a heap" where
  "set_size h t v = h\<lparr>trees := (trees h)(t := (trees h t)\<lparr>tree_size := v\<rparr>)\<rparr>"

text \<open>\<^verbatim>\<open>_Node(element, parent=...)\<close>: a new node object, left and right \<^verbatim>\<open>None\<close>.\<close>

definition new_node :: "'a heap \<Rightarrow> 'a \<Rightarrow> addr option \<Rightarrow> addr \<times> 'a heap" where
  "new_node h e par =
     (next_node h,
      h\<lparr>nodes := (nodes h)(next_node h :=
           \<lparr>node_element = e, node_parent = par, node_left = None, node_right = None\<rparr>),
        next_node := Suc (next_node h)\<rparr>)"

text \<open>\<^verbatim>\<open>LinkedBinaryTree.__init__\<close>: an empty tree object of a given class.\<close>

definition init :: "nat \<Rightarrow> tree" where
  "init ty = \<lparr>py_type = ty, tree_root = None, tree_size = 0\<rparr>"

section \<open>The linked binary tree\<close>

text \<open>\<^verbatim>\<open>Position.element\<close>.\<close>

definition element :: "'a heap \<Rightarrow> position \<Rightarrow> 'a" where
  "element h p = node_element (nodes h (node p))"

text \<open>
  \<^verbatim>\<open>_validate\<close>. The argument is a Position or Python's \<^verbatim>\<open>None\<close>, which is not a
  Position.
\<close>

definition validate :: "'a heap \<Rightarrow> tree_id \<Rightarrow> position option \<Rightarrow> error + addr" where
  "validate h self p =
     (case p of
        None \<Rightarrow> Inl (TypeError ''p must be of proper Position type'')
      | Some pos \<Rightarrow>
          if container pos \<noteq> self then Inl (ValueError ''p does not belong to this container'')
          else if node_parent (nodes h (node pos)) = Some (node pos)
            then Inl (ValueError ''p is no longer valid'')
          else Inr (node pos))"

definition make_position :: "tree_id \<Rightarrow> addr option \<Rightarrow> position option" where
  "make_position self nd = (case nd of None \<Rightarrow> None | Some n \<Rightarrow> Some (Position self n))"

definition len :: "'a heap \<Rightarrow> tree_id \<Rightarrow> int" where
  "len h self = tree_size (trees h self)"

definition root :: "'a heap \<Rightarrow> tree_id \<Rightarrow> position option" where
  "root h self = make_position self (tree_root (trees h self))"

definition parent :: "'a heap \<Rightarrow> tree_id \<Rightarrow> position option \<Rightarrow> error + position option" where
  "parent h self p =
     (case validate h self p of
        Inl e \<Rightarrow> Inl e
      | Inr nd \<Rightarrow> Inr (make_position self (node_parent (nodes h nd))))"

definition left :: "'a heap \<Rightarrow> tree_id \<Rightarrow> position option \<Rightarrow> error + position option" where
  "left h self p =
     (case validate h self p of
        Inl e \<Rightarrow> Inl e
      | Inr nd \<Rightarrow> Inr (make_position self (node_left (nodes h nd))))"

definition right :: "'a heap \<Rightarrow> tree_id \<Rightarrow> position option \<Rightarrow> error + position option" where
  "right h self p =
     (case validate h self p of
        Inl e \<Rightarrow> Inl e
      | Inr nd \<Rightarrow> Inr (make_position self (node_right (nodes h nd))))"

definition num_children :: "'a heap \<Rightarrow> tree_id \<Rightarrow> position option \<Rightarrow> error + int" where
  "num_children h self p =
     (case validate h self p of
        Inl e \<Rightarrow> Inl e
      | Inr nd \<Rightarrow>
          Inr ((if node_left (nodes h nd) \<noteq> None then 1 else 0)
             + (if node_right (nodes h nd) \<noteq> None then 1 else 0)))"

text \<open>\<^verbatim>\<open>Tree.is_leaf\<close> and \<^verbatim>\<open>Tree.is_empty\<close> of \<^verbatim>\<open>trees/tree.py\<close>.\<close>

definition is_leaf :: "'a heap \<Rightarrow> tree_id \<Rightarrow> position option \<Rightarrow> error + bool" where
  "is_leaf h self p =
     (case num_children h self p of Inl e \<Rightarrow> Inl e | Inr c \<Rightarrow> Inr (c = 0))"

text \<open>
  Python's built-in \<^verbatim>\<open>len(t)\<close> calls \<^verbatim>\<open>t.__len__()\<close> (\<open>len\<close> above) and raises
  ValueError when the result is negative.
\<close>

definition builtin_len :: "'a heap \<Rightarrow> tree_id \<Rightarrow> error + int" where
  "builtin_len h self =
     (if len h self < 0 then Inl (ValueError ''__len__() should return >= 0'')
      else Inr (len h self))"

definition is_empty :: "'a heap \<Rightarrow> tree_id \<Rightarrow> error + bool" where
  "is_empty h self = (case builtin_len h self of Inl e \<Rightarrow> Inl e | Inr n \<Rightarrow> Inr (n = 0))"




text \<open>
  The mutating operations return the outcome together with the store they leave, also
  when they raise: what was assigned before the \<^verbatim>\<open>raise\<close> stays assigned.
\<close>

definition add_root :: "'a heap \<Rightarrow> tree_id \<Rightarrow> 'a \<Rightarrow> (error + position option) \<times> 'a heap" where
  "add_root h self e =
     (if tree_root (trees h self) \<noteq> None then (Inl (ValueError ''Root exists!''), h)
      else
        let h1 = set_size h self 1;
            (a, h2) = new_node h1 e None;
            h3 = set_root h2 self (Some a)
        in (Inr (make_position self (tree_root (trees h3 self))), h3))"

definition add_left ::
  "'a heap \<Rightarrow> tree_id \<Rightarrow> position option \<Rightarrow> 'a \<Rightarrow> (error + position option) \<times> 'a heap" where
  "add_left h self p e =
     (case validate h self p of
        Inl err \<Rightarrow> (Inl err, h)
      | Inr nd \<Rightarrow>
          if node_left (nodes h nd) \<noteq> None then (Inl (ValueError ''Left child already exist''), h)
          else
            let h1 = set_size h self (tree_size (trees h self) + 1);
                (a, h2) = new_node h1 e (Some nd);
                h3 = set_left h2 nd (Some a)
            in (Inr (make_position self (node_left (nodes h3 nd))), h3))"

definition add_right ::
  "'a heap \<Rightarrow> tree_id \<Rightarrow> position option \<Rightarrow> 'a \<Rightarrow> (error + position option) \<times> 'a heap" where
  "add_right h self p e =
     (case validate h self p of
        Inl err \<Rightarrow> (Inl err, h)
      | Inr nd \<Rightarrow>
          if node_right (nodes h nd) \<noteq> None then (Inl (ValueError ''Right child already exist''), h)
          else
            let h1 = set_size h self (tree_size (trees h self) + 1);
                (a, h2) = new_node h1 e (Some nd);
                h3 = set_right h2 nd (Some a)
            in (Inr (make_position self (node_right (nodes h3 nd))), h3))"

definition replace ::
  "'a heap \<Rightarrow> tree_id \<Rightarrow> position option \<Rightarrow> 'a \<Rightarrow> (error + 'a) \<times> 'a heap" where
  "replace h self p e =
     (case validate h self p of
        Inl err \<Rightarrow> (Inl err, h)
      | Inr nd \<Rightarrow>
          let old = node_element (nodes h nd);
              h1 = set_element h nd e
          in (Inr old, h1))"

text \<open>
  \<^verbatim>\<open>delete\<close>. The statements run in the source's order on the store. When the node is
  not the root and its parent is \<^verbatim>\<open>None\<close>, \<^verbatim>\<open>parent._left\<close> raises AttributeError after
  the child's parent was already assigned.
\<close>

definition delete :: "'a heap \<Rightarrow> tree_id \<Rightarrow> position option \<Rightarrow> (error + 'a) \<times> 'a heap" where
  "delete h self p =
     (case validate h self p of
        Inl err \<Rightarrow> (Inl err, h)
      | Inr nd \<Rightarrow>
         (case num_children h self p of
            Inl err \<Rightarrow> (Inl err, h)
          | Inr c \<Rightarrow>
              if c = 2 then (Inl (ValueError ''p has 2 children and cannot be deleted.''), h)
              else
                let child = (if node_left (nodes h nd) \<noteq> None then node_left (nodes h nd)
                             else node_right (nodes h nd));
                    h1 = (case child of
                            None \<Rightarrow> h
                          | Some ch \<Rightarrow> set_parent h ch (node_parent (nodes h nd)));
                    r = (if tree_root (trees h1 self) = Some nd then Inr (set_root h1 self child)
                         else
                           (case node_parent (nodes h1 nd) of
                              None \<Rightarrow> Inl AttributeError
                            | Some par \<Rightarrow>
                                if node_left (nodes h1 par) = Some nd
                                then Inr (set_left h1 par child)
                                else Inr (set_right h1 par child)))
                in (case r of
                      Inl err \<Rightarrow> (Inl err, h1)
                    | Inr h2 \<Rightarrow>
                        let h3 = set_size h2 self (tree_size (trees h2 self) - 1);
                            h4 = set_parent h3 nd (Some nd)
                        in (Inr (node_element (nodes h4 nd)), h4))))"

text \<open>
  \<^verbatim>\<open>_attach\<close>. The two \<^verbatim>\<open>if not t.is_empty()\<close> blocks are \<open>attach_left\<close> and
  \<open>attach_right\<close>; \<^verbatim>\<open>t._root._parent\<close> raises AttributeError when the tree's root is
  \<^verbatim>\<open>None\<close> although its size is not 0. \<^verbatim>\<open>len(t1) + len(t2)\<close> is evaluated, and may
  raise, before \<^verbatim>\<open>self._size\<close> is assigned.
\<close>

definition attach_left :: "'a heap \<Rightarrow> addr \<Rightarrow> tree_id \<Rightarrow> (error + unit) \<times> 'a heap" where
  "attach_left h nd t1 =
     (case is_empty h t1 of
        Inl err \<Rightarrow> (Inl err, h)
      | Inr emp \<Rightarrow>
          if \<not> emp then
            (case tree_root (trees h t1) of
               None \<Rightarrow> (Inl AttributeError, h)
             | Some r \<Rightarrow>
                 let h1 = set_parent h r (Some nd);
                     h2 = set_left h1 nd (tree_root (trees h1 t1));
                     h3 = set_root h2 t1 None;
                     h4 = set_size h3 t1 0
                 in (Inr (), h4))
          else (Inr (), h))"

definition attach_right :: "'a heap \<Rightarrow> addr \<Rightarrow> tree_id \<Rightarrow> (error + unit) \<times> 'a heap" where
  "attach_right h nd t2 =
     (case is_empty h t2 of
        Inl err \<Rightarrow> (Inl err, h)
      | Inr emp \<Rightarrow>
          if \<not> emp then
            (case tree_root (trees h t2) of
               None \<Rightarrow> (Inl AttributeError, h)
             | Some r \<Rightarrow>
                 let h1 = set_parent h r (Some nd);
                     h2 = set_right h1 nd (tree_root (trees h1 t2));
                     h3 = set_root h2 t2 None;
                     h4 = set_size h3 t2 0
                 in (Inr (), h4))
          else (Inr (), h))"

definition attach ::
  "'a heap \<Rightarrow> tree_id \<Rightarrow> position option \<Rightarrow> tree_id \<Rightarrow> tree_id \<Rightarrow> (error + unit) \<times> 'a heap" where
  "attach h self p t1 t2 =
     (case validate h self p of
        Inl err \<Rightarrow> (Inl err, h)
      | Inr nd \<Rightarrow>
         (case is_leaf h self p of
            Inl err \<Rightarrow> (Inl err, h)
          | Inr lf \<Rightarrow>
              if \<not> lf then (Inl (ValueError ''position must be a leaf''), h)
              else if \<not> (py_type (trees h self) = py_type (trees h t1)
                         \<and> py_type (trees h t1) = py_type (trees h t2))
                then (Inl (TypeError ''Tree types must match''), h)
              else
                (case builtin_len h t1 of
                   Inl err \<Rightarrow> (Inl err, h)
                 | Inr n1 \<Rightarrow>
                    (case builtin_len h t2 of
                       Inl err \<Rightarrow> (Inl err, h)
                     | Inr n2 \<Rightarrow>
                         let h1 = set_size h self (n1 + n2)
                         in (case attach_left h1 nd t1 of
                               (Inl err, h2) \<Rightarrow> (Inl err, h2)
                             | (Inr u, h2) \<Rightarrow> attach_right h2 nd t2)))))"


text \<open>
  \<^verbatim>\<open>inorder\<close> and \<^verbatim>\<open>_subtree_inorder\<close>. A generator is modelled by what it yields:
  the list of the values yielded, and the exception that ended the iteration, if one
  did. The recursion follows the links of the store and need not end on a store whose
  links form a cycle; not returning is the value \<open>None\<close>. The source evaluates
  \<^verbatim>\<open>self.left(p)\<close> and \<^verbatim>\<open>self.right(p)\<close> twice each on the same store; the model
  evaluates each once.
\<close>

partial_function (option) subtree_inorder ::
  "'a heap \<Rightarrow> tree_id \<Rightarrow> position option \<Rightarrow> (position option list \<times> error option) option" where
  "subtree_inorder h self p =
     (case left h self p of
        Inl e \<Rightarrow> Some ([], Some e)
      | Inr l \<Rightarrow>
          Option.bind (if l \<noteq> None then subtree_inorder h self l else Some ([], None))
            (\<lambda>(ys1, e1).
               case e1 of
                 Some e \<Rightarrow> Some (ys1, Some e)
               | None \<Rightarrow>
                  (case right h self p of
                     Inl e \<Rightarrow> Some (ys1 @ [p], Some e)
                   | Inr r \<Rightarrow>
                       if r \<noteq> None
                       then Option.bind (subtree_inorder h self r)
                              (\<lambda>(ys2, e2). Some (ys1 @ [p] @ ys2, e2))
                       else Some (ys1 @ [p], None))))"

definition inorder ::
  "'a heap \<Rightarrow> tree_id \<Rightarrow> (position option list \<times> error option) option" where
  "inorder h self =
     (case is_empty h self of
        Inl e \<Rightarrow> Some ([], Some e)
      | Inr emp \<Rightarrow>
          if \<not> emp then subtree_inorder h self (root h self) else Some ([], None))"

definition positions ::
  "'a heap \<Rightarrow> tree_id \<Rightarrow> (position option list \<times> error option) option" where
  "positions h self = inorder h self"

text \<open>
  Modelled from the spec: \<^verbatim>\<open>BinaryTree.children\<close> (the file \<^verbatim>\<open>trees/binary_tree.py\<close>
  is not among the sources). The spec has the children of a position enumerated
  left-to-right: the left child if there is one, then the right child if there is one.
\<close>

definition children ::
  "'a heap \<Rightarrow> tree_id \<Rightarrow> position option \<Rightarrow> position option list \<times> error option" where
  "children h self p =
     (case left h self p of
        Inl e \<Rightarrow> ([], Some e)
      | Inr l \<Rightarrow>
          let ys = (if l \<noteq> None then [l] else [])
          in (case right h self p of
                Inl e \<Rightarrow> (ys, Some e)
              | Inr r \<Rightarrow> (ys @ (if r \<noteq> None then [r] else []), None)))"

text \<open>
  Modelled from the spec: \<^verbatim>\<open>LinkedQueue\<close> (the file \<^verbatim>\<open>linked_list/linked_queue.py\<close>
  is not among the sources). The spec asks of it a FIFO queue with \<^verbatim>\<open>enqueue\<close>,
  \<^verbatim>\<open>dequeue\<close> and \<^verbatim>\<open>is_empty\<close>: the fringe is a list, enqueued at the back and
  dequeued at the front.
\<close>

definition fringe_enqueue :: "'b list \<Rightarrow> 'b \<Rightarrow> 'b list" where
  "fringe_enqueue q x = q @ [x]"

definition fringe_enqueue_all :: "'b list \<Rightarrow> 'b list \<Rightarrow> 'b list" where
  "fringe_enqueue_all q xs = foldl fringe_enqueue q xs"

text \<open>
  \<^verbatim>\<open>Tree.breadthfirst\<close> of \<^verbatim>\<open>trees/tree.py\<close>: \<open>bfs_loop\<close> is the \<^verbatim>\<open>while\<close> loop on
  the fringe.
\<close>

partial_function (option) bfs_loop ::
  "'a heap \<Rightarrow> tree_id \<Rightarrow> position option list \<Rightarrow> (position option list \<times> error option) option" where
  "bfs_loop h self fringe =
     (case fringe of
        [] \<Rightarrow> Some ([], None)
      | p # rest \<Rightarrow>
         (case children h self p of
            (cs, Some e) \<Rightarrow> Some ([p], Some e)
          | (cs, None) \<Rightarrow>
              Option.bind (bfs_loop h self (fringe_enqueue_all rest cs))
                (\<lambda>(ys, e). Some (p # ys, e))))"

definition breadthfirst ::
  "'a heap \<Rightarrow> tree_id \<Rightarrow> (position option list \<times> error option) option" where
  "breadthfirst h self =
     (case is_empty h self of
        Inl e \<Rightarrow> Some ([], Some e)
      | Inr emp \<Rightarrow>
          if \<not> emp then bfs_loop h self (fringe_enqueue [] (root h self))
          else Some ([], None))"

section \<open>The circular-array queue\<close>

text \<open>
  \<^verbatim>\<open>ArrayQueue\<close> of \<^verbatim>\<open>queue/queue.py\<close>. The slots of \<^verbatim>\<open>_data\<close> hold Python values,
  \<open>None\<close> being Python's \<^verbatim>\<open>None\<close>. Indexing a Python list counts a negative index from
  the end and raises IndexError out of range.
\<close>

record 'a array_queue =
  queue_data :: "'a option list"
  queue_size :: int
  queue_front :: int

definition list_slot :: "nat \<Rightarrow> int \<Rightarrow> nat option" where
  "list_slot n i =
     (if 0 \<le> i \<and> i < int n then Some (nat i)
      else if i < 0 \<and> - int n \<le> i then Some (nat (int n + i))
      else None)"

definition py_index :: "'b list \<Rightarrow> int \<Rightarrow> error + 'b" where
  "py_index xs i =
     (case list_slot (length xs) i of None \<Rightarrow> Inl IndexError | Some k \<Rightarrow> Inr (xs ! k))"

definition py_store :: "'b list \<Rightarrow> int \<Rightarrow> 'b \<Rightarrow> error + 'b list" where
  "py_store xs i v =
     (case list_slot (length xs) i of None \<Rightarrow> Inl IndexError | Some k \<Rightarrow> Inr (xs[k := v]))"

definition DEFAULT_CAPACITY :: int where
  "DEFAULT_CAPACITY = 10"

definition init_queue :: "'a array_queue" where
  "init_queue =
     \<lparr>queue_data = replicate (nat DEFAULT_CAPACITY) None, queue_size = 0, queue_front = 0\<rparr>"

definition len_queue :: "'a array_queue \<Rightarrow> int" where
  "len_queue q = queue_size q"

definition is_empty_queue :: "'a array_queue \<Rightarrow> bool" where
  "is_empty_queue q = (queue_size q = 0)"

definition first :: "'a array_queue \<Rightarrow> (error + 'a option) \<times> 'a array_queue" where
  "first q =
     (if is_empty_queue q then (Inl (Empty ''Queue is empty''), q)
      else (py_index (queue_data q) (queue_front q), q))"

text \<open>
  \<^verbatim>\<open>_resize\<close>: \<open>resize_loop\<close> is the \<^verbatim>\<open>for k in range(self._size)\<close> loop, with the
  number of rounds left, \<open>k\<close>, \<open>walk\<close> and the new list.
\<close>

fun resize_loop ::
  "'b list \<Rightarrow> nat \<Rightarrow> int \<Rightarrow> int \<Rightarrow> 'b list \<Rightarrow> 'b list \<times> error option" where
  "resize_loop old 0 k walk dat = (dat, None)"
| "resize_loop old (Suc n) k walk dat =
     (case py_index old walk of
        Inl e \<Rightarrow> (dat, Some e)
      | Inr v \<Rightarrow>
         (case py_store dat k v of
            Inl e \<Rightarrow> (dat, Some e)
          | Inr dat' \<Rightarrow>
              if length old = 0 then (dat', Some ZeroDivisionError)
              else resize_loop old n (k + 1) ((1 + walk) mod int (length old)) dat'))"

definition resize :: "'a array_queue \<Rightarrow> int \<Rightarrow> (error + unit) \<times> 'a array_queue" where
  "resize q capacity =
     (let old = queue_data q;
          (dat, err) = resize_loop old (nat (queue_size q)) 0 (queue_front q)
                         (replicate (nat capacity) None)
      in case err of
           Some e \<Rightarrow> (Inl e, q\<lparr>queue_data := dat\<rparr>)
         | None \<Rightarrow> (Inr (), q\<lparr>queue_data := dat, queue_front := 0\<rparr>))"

definition dequeue :: "'a array_queue \<Rightarrow> (error + 'a option) \<times> 'a array_queue" where
  "dequeue q =
     (if is_empty_queue q then (Inl (Empty ''Queue is empty''), q)
      else
        (case py_index (queue_data q) (queue_front q) of
           Inl e \<Rightarrow> (Inl e, q)
         | Inr answer \<Rightarrow>
            (case py_store (queue_data q) (queue_front q) None of
               Inl e \<Rightarrow> (Inl e, q)
             | Inr dat \<Rightarrow>
                 let q1 = q\<lparr>queue_data := dat\<rparr>
                 in if length (queue_data q1) = 0 then (Inl ZeroDivisionError, q1)
                    else
                      let q2 = q1\<lparr>queue_front :=
                                   (queue_front q1 + 1) mod int (length (queue_data q1))\<rparr>;
                          q3 = q2\<lparr>queue_size := queue_size q2 - 1\<rparr>
                      in if 0 < queue_size q3
                            \<and> queue_size q3 < int (length (queue_data q3)) div 4
                         then
                           (case resize q3 (int (length (queue_data q3)) div 2) of
                              (Inl e, q4) \<Rightarrow> (Inl e, q4)
                            | (Inr u, q4) \<Rightarrow> (Inr answer, q4))
                         else (Inr answer, q3))))"

definition enqueue :: "'a array_queue \<Rightarrow> 'a option \<Rightarrow> (error + unit) \<times> 'a array_queue" where
  "enqueue q e =
     (case (if queue_size q = int (length (queue_data q))
            then resize q (2 * int (length (queue_data q))) else (Inr (), q)) of
        (Inl err, q1) \<Rightarrow> (Inl err, q1)
      | (Inr u, q1) \<Rightarrow>
          if length (queue_data q1) = 0 then (Inl ZeroDivisionError, q1)
          else
            let avail = (queue_front q1 + queue_size q1) mod int (length (queue_data q1))
            in (case py_store (queue_data q1) avail e of
                  Inl err \<Rightarrow> (Inl err, q1)
                | Inr dat \<Rightarrow>
                    (Inr (), q1\<lparr>queue_data := dat, queue_size := queue_size q1 + 1\<rparr>)))"

section \<open>Specification-level notions\<close>

text \<open>
  The data model's invariant at one node of a tree: the root has no parent and any other
  node is the left or right child of its parent, and a child's parent reference points
  back to the node.
\<close>

definition linked_in :: "'a heap \<Rightarrow> tree_id \<Rightarrow> addr \<Rightarrow> bool" where
  "linked_in h self nd =
     ((if tree_root (trees h self) = Some nd then node_parent (nodes h nd) = None
       else (case node_parent (nodes h nd) of
               None \<Rightarrow> False
             | Some q \<Rightarrow> node_left (nodes h q) = Some nd \<or> node_right (nodes h q) = Some nd))
      \<and> (case node_left (nodes h nd) of
            None \<Rightarrow> True
          | Some c \<Rightarrow> node_parent (nodes h c) = Some nd)
      \<and> (case node_right (nodes h nd) of
            None \<Rightarrow> True
          | Some c \<Rightarrow> node_parent (nodes h c) = Some nd))"

text \<open>
  The binary tree that the links of the store spell out below a node: \<open>shape_at h a t\<close>
  says that following \<open>node_left\<close> and \<open>node_right\<close> from the reference \<open>a\<close> gives
  exactly the finite tree \<open>t\<close> of addresses.
\<close>

datatype shape = Tip | Br shape addr shape

fun shape_at :: "'a heap \<Rightarrow> addr option \<Rightarrow> shape \<Rightarrow> bool" where
  "shape_at h None Tip = True"
| "shape_at h (Some a) (Br l x r) =
     (x = a \<and> shape_at h (node_left (nodes h a)) l \<and> shape_at h (node_right (nodes h a)) r)"
| "shape_at h None (Br l x r) = False"
| "shape_at h (Some a) Tip = False"

fun addrs :: "shape \<Rightarrow> addr list" where
  "addrs Tip = []"
| "addrs (Br l x r) = x # addrs l @ addrs r"

text \<open>No node of the shape is deprecated.\<close>

definition live :: "'a heap \<Rightarrow> shape \<Rightarrow> bool" where
  "live h t = list_all (\<lambda>a. node_parent (nodes h a) \<noteq> Some a) (addrs t)"

text \<open>Inorder in the spec's words: left subtree, then the node, then right subtree.\<close>

fun spec_inorder :: "shape \<Rightarrow> addr list" where
  "spec_inorder Tip = []"
| "spec_inorder (Br l x r) = spec_inorder l @ [x] @ spec_inorder r"

text \<open>
  Level order in the spec's words: the nodes of depth 0, then those of depth 1, and so
  on, each level left to right.
\<close>

fun level :: "nat \<Rightarrow> shape \<Rightarrow> addr list" where
  "level d Tip = []"
| "level 0 (Br l x r) = [x]"
| "level (Suc d) (Br l x r) = level d l @ level d r"

fun levels :: "shape \<Rightarrow> nat" where
  "levels Tip = 0"
| "levels (Br l x r) = Suc (max (levels l) (levels r))"

definition spec_levelorder :: "shape \<Rightarrow> addr list" where
  "spec_levelorder t = concat (map (\<lambda>d. level d t) [0..<levels t])"

text \<open>
  The representation invariant of the queue: the front index is inside the list and the
  size is between 0 and the capacity. \<open>init_queue\<close> has it, and \<open>enqueue\<close> and
  \<open>dequeue\<close> keep it.
\<close>

definition queue_inv :: "'a array_queue \<Rightarrow> bool" where
  "queue_inv q =
     (0 \<le> queue_front q \<and> queue_front q < int (length (queue_data q))
      \<and> 0 \<le> queue_size q \<and> queue_size q \<le> int (length (queue_data q)))"


text \<open>
  The fringe in the spec's words, on shapes: dequeue the front tree, yield its node,
  enqueue its children left to right, until the fringe is empty. \<open>present\<close> keeps the
  children that exist.
\<close>

definition present :: "shape list \<Rightarrow> shape list" where
  "present ts = filter (\<lambda>t. t \<noteq> Tip) ts"

fun weight :: "shape \<Rightarrow> nat" where
  "weight Tip = 0"
| "weight (Br l x r) = Suc (weight l + weight r)"

function fringe_order :: "shape list \<Rightarrow> addr list" where
  "fringe_order [] = []"
| "fringe_order (Tip # q) = fringe_order q"
| "fringe_order (Br l x r # q) = x # fringe_order (q @ present [l, r])"
  by pat_completeness auto
termination
  by (relation "measure (\<lambda>q. 2 * sum_list (map weight q) + length q)")
     (auto simp: present_def)

text \<open>The children of a fringe, and the nodes at depth \<open>d\<close> of a fringe.\<close>

definition kids :: "shape list \<Rightarrow> shape list" where
  "kids ts = concat (map (\<lambda>t. case t of Tip \<Rightarrow> [] | Br l x r \<Rightarrow> present [l, r]) ts)"

definition lev :: "nat \<Rightarrow> shape list \<Rightarrow> addr list" where
  "lev d ts = concat (map (level d) ts)"

section \<open>Example states\<close>

text \<open>A store with no node allocated, in which every tree object is empty.\<close>

definition heap0 :: "string heap" where
  "heap0 =
     \<lparr>nodes = (\<lambda>_. \<lparr>node_element = [], node_parent = None,
                     node_left = None, node_right = None\<rparr>),
      trees = (\<lambda>_. init 0), next_node = 0\<rparr>"

text \<open>Tree 0 with the root M, its left child E and its right child Z.\<close>

definition mez :: "string heap" where
  "mez =
     snd (add_right
       (snd (add_left (snd (add_root heap0 0 ''M'')) 0 (Some (Position 0 0)) ''E''))
       0 (Some (Position 0 0)) ''Z'')"

text \<open>
  Tree 0 with three levels: the root a, its children b and c, the left child d of b and
  the right child e of c.
\<close>

definition three_levels :: "string heap" where
  "three_levels =
     snd (add_right
       (snd (add_left
         (snd (add_right
           (snd (add_left (snd (add_root heap0 0 ''a'')) 0 (Some (Position 0 0)) ''b''))
           0 (Some (Position 0 0)) ''c''))
         0 (Some (Position 0 1)) ''d''))
       0 (Some (Position 0 2)) ''e'')"

text \<open>Tree 0 with the single node a, and trees 1 and 2 empty.\<close>

definition single :: "string heap" where
  "single = snd (add_root heap0 0 ''a'')"

text \<open>
  Tree 0 with the single node a (node 0); tree 1 with the root x (node 1) and its left
  child y (node 2); tree 2 empty.
\<close>

definition two_trees :: "string heap" where
  "two_trees =
     snd (add_left (snd (add_root (snd (add_root heap0 0 ''a'')) 1 ''x''))
            1 (Some (Position 1 1)) ''y'')"



text \<open>A queue after three elements were enqueued.\<close>

definition queue3 :: "string array_queue" where
  "queue3 =
     snd (enqueue (snd (enqueue (snd (enqueue init_queue (Some ''p''))) (Some ''q'')))
            (Some ''r''))"

section \<open>Evaluation of the example states\<close>

lemmas store_simps =
  set_element_def set_parent_def set_left_def set_right_def set_root_def set_size_def
  new_node_def init_def

lemmas tree_op_simps =
  validate_def make_position_def len_def root_def parent_def left_def right_def
  num_children_def is_leaf_def builtin_len_def is_empty_def add_root_def add_left_def
  add_right_def

lemma single_eval:
  "nodes single 0 =
     \<lparr>node_element = ''a'', node_parent = None, node_left = None, node_right = None\<rparr>"
  "trees single 0 = \<lparr>py_type = 0, tree_root = Some 0, tree_size = 1\<rparr>"
  "trees single (Suc 0) = \<lparr>py_type = 0, tree_root = None, tree_size = 0\<rparr>"
  "trees single 2 = \<lparr>py_type = 0, tree_root = None, tree_size = 0\<rparr>"
  "next_node single = Suc 0"
  by (simp_all add: single_def heap0_def tree_op_simps store_simps)

lemma mez_eval:
  "nodes mez 0 =
     \<lparr>node_element = ''M'', node_parent = None, node_left = Some 1, node_right = Some 2\<rparr>"
  "nodes mez (Suc 0) =
     \<lparr>node_element = ''E'', node_parent = Some 0, node_left = None, node_right = None\<rparr>"
  "nodes mez 2 =
     \<lparr>node_element = ''Z'', node_parent = Some 0, node_left = None, node_right = None\<rparr>"
  "trees mez 0 = \<lparr>py_type = 0, tree_root = Some 0, tree_size = 3\<rparr>"
  "next_node mez = 3"
  by (simp_all add: mez_def heap0_def tree_op_simps store_simps)

lemma two_trees_eval:
  "nodes two_trees 0 =
     \<lparr>node_element = ''a'', node_parent = None, node_left = None, node_right = None\<rparr>"
  "nodes two_trees (Suc 0) =
     \<lparr>node_element = ''x'', node_parent = None, node_left = Some 2, node_right = None\<rparr>"
  "nodes two_trees 2 =
     \<lparr>node_element = ''y'', node_parent = Some 1, node_left = None, node_right = None\<rparr>"
  "trees two_trees 0 = \<lparr>py_type = 0, tree_root = Some 0, tree_size = 1\<rparr>"
  "trees two_trees (Suc 0) = \<lparr>py_type = 0, tree_root = Some 1, tree_size = 2\<rparr>"
  "trees two_trees 2 = \<lparr>py_type = 0, tree_root = None, tree_size = 0\<rparr>"
  "next_node two_trees = 3"
  by (simp_all add: two_trees_def heap0_def tree_op_simps store_simps)

lemma three_levels_eval:
  "nodes three_levels 0 =
     \<lparr>node_element = ''a'', node_parent = None, node_left = Some 1, node_right = Some 2\<rparr>"
  "nodes three_levels (Suc 0) =
     \<lparr>node_element = ''b'', node_parent = Some 0, node_left = Some 3, node_right = None\<rparr>"
  "nodes three_levels 2 =
     \<lparr>node_element = ''c'', node_parent = Some 0, node_left = None, node_right = Some 4\<rparr>"
  "nodes three_levels 3 =
     \<lparr>node_element = ''d'', node_parent = Some 1, node_left = None, node_right = None\<rparr>"
  "nodes three_levels 4 =
     \<lparr>node_element = ''e'', node_parent = Some 2, node_left = None, node_right = None\<rparr>"
  "trees three_levels 0 = \<lparr>py_type = 0, tree_root = Some 0, tree_size = 5\<rparr>"
  "next_node three_levels = 5"
  by (simp_all add: three_levels_def heap0_def tree_op_simps store_simps)



section \<open>Frame lemmas for the store\<close>

lemma frame:
  "nodes (set_root h t r) = nodes h"
  "nodes (set_size h t k) = nodes h"
  "trees (set_element h n x) = trees h"
  "trees (set_parent h n v) = trees h"
  "trees (set_left h n v) = trees h"
  "trees (set_right h n v) = trees h"
  "next_node (set_root h t r) = next_node h"
  "next_node (set_size h t k) = next_node h"
  "next_node (set_element h n x) = next_node h"
  "next_node (set_parent h n v) = next_node h"
  "next_node (set_left h n v) = next_node h"
  "next_node (set_right h n v) = next_node h"
  by (simp_all add: store_simps)

lemma node_frame:
  "node_parent (nodes (set_parent h n v) m) = (if m = n then v else node_parent (nodes h m))"
  "node_left (nodes (set_parent h n v) m) = node_left (nodes h m)"
  "node_right (nodes (set_parent h n v) m) = node_right (nodes h m)"
  "node_element (nodes (set_parent h n v) m) = node_element (nodes h m)"
  "node_parent (nodes (set_left h n v) m) = node_parent (nodes h m)"
  "node_left (nodes (set_left h n v) m) = (if m = n then v else node_left (nodes h m))"
  "node_right (nodes (set_left h n v) m) = node_right (nodes h m)"
  "node_element (nodes (set_left h n v) m) = node_element (nodes h m)"
  "node_parent (nodes (set_right h n v) m) = node_parent (nodes h m)"
  "node_left (nodes (set_right h n v) m) = node_left (nodes h m)"
  "node_right (nodes (set_right h n v) m) = (if m = n then v else node_right (nodes h m))"
  "node_element (nodes (set_right h n v) m) = node_element (nodes h m)"
  "node_parent (nodes (set_element h n x) m) = node_parent (nodes h m)"
  "node_left (nodes (set_element h n x) m) = node_left (nodes h m)"
  "node_right (nodes (set_element h n x) m) = node_right (nodes h m)"
  "node_element (nodes (set_element h n x) m) = (if m = n then x else node_element (nodes h m))"
  by (simp_all add: store_simps)

lemma tree_frame:
  "tree_root (trees (set_root h t r) s) = (if s = t then r else tree_root (trees h s))"
  "tree_size (trees (set_root h t r) s) = tree_size (trees h s)"
  "py_type (trees (set_root h t r) s) = py_type (trees h s)"
  "tree_root (trees (set_size h t k) s) = tree_root (trees h s)"
  "tree_size (trees (set_size h t k) s) = (if s = t then k else tree_size (trees h s))"
  "py_type (trees (set_size h t k) s) = py_type (trees h s)"
  by (simp_all add: store_simps)

lemmas frames = frame node_frame tree_frame

lemma validate_Inr:
  "validate h self p = Inr nd \<longleftrightarrow>
     p = Some (Position self nd) \<and> node_parent (nodes h nd) \<noteq> Some nd"
proof (cases p)
  case None
  then show ?thesis by (simp add: validate_def)
next
  case (Some pos)
  then show ?thesis by (cases pos) (auto simp: validate_def)
qed










section \<open>Deleting a node with two children\<close>

text \<open>
  C5. For a position that passes validation and whose node has both a left and a right
  child, \<open>delete\<close> raises the ValueError "p has 2 children and cannot be deleted." and the
  store it leaves is the store it was given: the count, the root, every link and every
  element are unchanged.
\<close>

theorem delete_two_children:
  assumes "validate h self p = Inr nd"
    and "node_left (nodes h nd) \<noteq> None"
    and "node_right (nodes h nd) \<noteq> None"
  shows "delete h self p = (Inl (ValueError ''p has 2 children and cannot be deleted.''), h)"
  using assms by (simp add: delete_def num_children_def)

theorem delete_two_children_witness:
  "validate mez 0 (Some (Position 0 0)) = Inr 0
   \<and> node_left (nodes mez 0) \<noteq> None \<and> node_right (nodes mez 0) \<noteq> None
   \<and> delete mez 0 (Some (Position 0 0))
       = (Inl (ValueError ''p has 2 children and cannot be deleted.''), mez)"
  using delete_two_children [of mez 0 "Some (Position 0 0)" 0]
  by (simp add: validate_def mez_eval)

section \<open>Adding a child\<close>

text \<open>
  C6. Let p pass validation, its node being an allocated object. If the node has no left
  child, \<open>add_left\<close> returns the position of a new node that is afterwards the left child
  of p and stores e; the number of children of p grows by exactly one and so does the
  count of the tree. If the node has a left child, \<open>add_left\<close> raises the ValueError
  "Left child already exist" and leaves the store as it was. \<open>add_right\<close> does the same
  on the right.
\<close>

theorem add_child:
  assumes "validate h self p = Inr nd" and "nd < next_node h"
  shows "(node_left (nodes h nd) = None \<longrightarrow>
            fst (add_left h self p e) = Inr (Some (Position self (next_node h)))
          \<and> left (snd (add_left h self p e)) self p = Inr (Some (Position self (next_node h)))
          \<and> element (snd (add_left h self p e)) (Position self (next_node h)) = e
          \<and> (\<exists>c. num_children h self p = Inr c
                 \<and> num_children (snd (add_left h self p e)) self p = Inr (c + 1))
          \<and> len (snd (add_left h self p e)) self = len h self + 1)
       \<and> (node_left (nodes h nd) \<noteq> None \<longrightarrow>
            add_left h self p e = (Inl (ValueError ''Left child already exist''), h))
       \<and> (node_right (nodes h nd) = None \<longrightarrow>
            fst (add_right h self p e) = Inr (Some (Position self (next_node h)))
          \<and> right (snd (add_right h self p e)) self p = Inr (Some (Position self (next_node h)))
          \<and> element (snd (add_right h self p e)) (Position self (next_node h)) = e
          \<and> (\<exists>c. num_children h self p = Inr c
                 \<and> num_children (snd (add_right h self p e)) self p = Inr (c + 1))
          \<and> len (snd (add_right h self p e)) self = len h self + 1)
       \<and> (node_right (nodes h nd) \<noteq> None \<longrightarrow>
            add_right h self p e = (Inl (ValueError ''Right child already exist''), h))"
  using assms
  by (auto simp: tree_op_simps store_simps element_def Let_def split: option.splits if_splits)

theorem add_child_witness:
  "validate single 0 (Some (Position 0 0)) = Inr 0 \<and> 0 < next_node single
   \<and> node_left (nodes single 0) = None \<and> node_right (nodes single 0) = None
   \<and> fst (add_left single 0 (Some (Position 0 0)) ''b'') = Inr (Some (Position 0 1))
   \<and> left (snd (add_left single 0 (Some (Position 0 0)) ''b'')) 0 (Some (Position 0 0))
       = Inr (Some (Position 0 1))
   \<and> element (snd (add_left single 0 (Some (Position 0 0)) ''b'')) (Position 0 1) = ''b''
   \<and> num_children single 0 (Some (Position 0 0)) = Inr 0
   \<and> num_children (snd (add_left single 0 (Some (Position 0 0)) ''b'')) 0 (Some (Position 0 0))
       = Inr 1
   \<and> len (snd (add_right single 0 (Some (Position 0 0)) ''c'')) 0 = 2
   \<and> validate mez 0 (Some (Position 0 0)) = Inr 0 \<and> 0 < next_node mez
   \<and> node_left (nodes mez 0) \<noteq> None \<and> node_right (nodes mez 0) \<noteq> None
   \<and> add_left mez 0 (Some (Position 0 0)) ''b''
       = (Inl (ValueError ''Left child already exist''), mez)
   \<and> add_right mez 0 (Some (Position 0 0)) ''c''
       = (Inl (ValueError ''Right child already exist''), mez)"
  using add_child [of single 0 "Some (Position 0 0)" 0 "''b''"]
    add_child [of single 0 "Some (Position 0 0)" 0 "''c''"]
    add_child [of mez 0 "Some (Position 0 0)" 0 "''b''"]
    add_child [of mez 0 "Some (Position 0 0)" 0 "''c''"]
  by (simp add: validate_def num_children_def len_def single_eval mez_eval)

section \<open>Replacing an element\<close>

text \<open>
  C7. For a position p that passes validation, \<open>replace\<close> with e2 returns the element
  that was stored at p and changes no parent, left or right link of any node, no tree
  object and no allocation; replacing again with the element returned gives back e2 and
  restores the very store the first call started from.
\<close>

theorem replace_roundtrip:
  assumes "validate h self p = Inr nd"
  shows "fst (replace h self p e2) = Inr (node_element (nodes h nd))
       \<and> (\<forall>n. node_parent (nodes (snd (replace h self p e2)) n) = node_parent (nodes h n)
            \<and> node_left (nodes (snd (replace h self p e2)) n) = node_left (nodes h n)
            \<and> node_right (nodes (snd (replace h self p e2)) n) = node_right (nodes h n))
       \<and> trees (snd (replace h self p e2)) = trees h
       \<and> next_node (snd (replace h self p e2)) = next_node h
       \<and> replace (snd (replace h self p e2)) self p (node_element (nodes h nd)) = (Inr e2, h)"
proof -
  have v: "validate (set_element h nd e2) self p = Inr nd"
    using assms by (auto simp: validate_def set_element_def split: option.splits if_splits)
  have restore: "set_element (set_element h nd e2) nd (node_element (nodes h nd)) = h"
    by (simp add: set_element_def)
  show ?thesis using assms v restore
    by (simp add: replace_def Let_def) (simp add: set_element_def)
qed

theorem replace_roundtrip_witness:
  "validate mez 0 (Some (Position 0 0)) = Inr 0
   \<and> fst (replace mez 0 (Some (Position 0 0)) ''Q'') = Inr ''M''
   \<and> replace (snd (replace mez 0 (Some (Position 0 0)) ''Q'')) 0 (Some (Position 0 0)) ''M''
       = (Inr ''Q'', mez)"
  using replace_roundtrip [of mez 0 "Some (Position 0 0)" 0 "''Q''"]
  by (simp add: validate_def mez_eval)

section \<open>The count and the root\<close>

text \<open>
  C3. The claim is that in every state reached from empty trees by the public
  operations the count of a tree is 0 exactly when it has no root. The state below is
  reached by \<open>add_root\<close> on tree 0 and then \<open>attach\<close> of the two empty trees 1 and 2
  at the root: the call succeeds, the count of tree 0 is 0 and its root is still there.
\<close>

theorem attach_empty_trees_zero_count:
  "fst (attach single 0 (root single 0) 1 2) = Inr ()
   \<and> len (snd (attach single 0 (root single 0) 1 2)) 0 = 0
   \<and> is_empty (snd (attach single 0 (root single 0) 1 2)) 0 = Inr True
   \<and> root (snd (attach single 0 (root single 0) 1 2)) 0 = Some (Position 0 0)"
  by (simp add: attach_def attach_left_def attach_right_def tree_op_simps single_eval
      set_size_def)

section \<open>Deleting a node with at most one child\<close>

text \<open>
  C1. Let p pass validation on the tree, let its node have at most one child, and let the
  node sit in the tree as the data model has it (\<open>linked_in\<close>: it is the root and has no
  parent, or it is a child of its parent; its children point back to it). Then \<open>delete\<close>
  returns the element stored at p and decrements the count of the tree by exactly one.
  The single child, if any, gets the former parent of p as its parent, and \<open>parent\<close> of
  the child answers what \<open>parent\<close> of p answered before; if p was the root the child is
  the new root and has no parent, otherwise the slot of the former parent that held p
  holds the child. The removed node is its own parent afterwards, and validating p
  again raises the ValueError "p is no longer valid".
\<close>

theorem delete_single_child:
  assumes v: "validate h self p = Inr nd"
    and c: "\<not> (node_left (nodes h nd) \<noteq> None \<and> node_right (nodes h nd) \<noteq> None)"
    and l: "linked_in h self nd"
    and ch: "child = (if node_left (nodes h nd) \<noteq> None then node_left (nodes h nd)
                      else node_right (nodes h nd))"
    and h': "h' = snd (delete h self p)"
  shows "fst (delete h self p) = Inr (node_element (nodes h nd))
       \<and> len h' self = len h self - 1
       \<and> (\<forall>c. child = Some c \<longrightarrow> node_parent (nodes h' c) = node_parent (nodes h nd))
       \<and> (\<forall>c. child = Some c \<and> node_parent (nodes h nd) \<noteq> Some c \<longrightarrow>
             parent h' self (Some (Position self c)) = parent h self p)
       \<and> (tree_root (trees h self) = Some nd \<longrightarrow>
            root h' self = make_position self child
          \<and> (\<forall>c. child = Some c \<longrightarrow> parent h' self (Some (Position self c)) = Inr None))
       \<and> (tree_root (trees h self) \<noteq> Some nd \<longrightarrow>
            (\<exists>q. node_parent (nodes h nd) = Some q
               \<and> (if node_left (nodes h q) = Some nd then node_left (nodes h' q) = child
                   else node_right (nodes h' q) = child)))
       \<and> node_parent (nodes h' nd) = Some nd
       \<and> validate h' self p = Inl (ValueError ''p is no longer valid'')"
proof -
  have p: "p = Some (Position self nd)" and np: "node_parent (nodes h nd) \<noteq> Some nd"
    using v by (simp_all add: validate_Inr)
  have cn: "child \<noteq> Some nd"
    using l np ch by (auto simp: linked_in_def split: option.splits if_splits)
  define h1 where "h1 = (case child of None \<Rightarrow> h
                          | Some c \<Rightarrow> set_parent h c (node_parent (nodes h nd)))"
  have h1: "trees h1 = trees h" "node_parent (nodes h1 nd) = node_parent (nodes h nd)"
    "\<And>m. node_left (nodes h1 m) = node_left (nodes h m)"
    "\<And>m. node_right (nodes h1 m) = node_right (nodes h m)"
    "\<And>m. node_element (nodes h1 m) = node_element (nodes h m)"
    "\<And>c. child = Some c \<Longrightarrow> node_parent (nodes h1 c) = node_parent (nodes h nd)"
    using cn by (auto simp: h1_def frames split: option.splits)
  have nc: "num_children h self p \<noteq> Inr 2" "\<exists>k. num_children h self p = Inr k"
    using v c by (auto simp: num_children_def)
  show ?thesis
  proof (cases "tree_root (trees h self) = Some nd")
    case True
    have d: "delete h self p =
      (Inr (node_element (nodes h nd)),
       set_parent (set_size (set_root h1 self child) self (tree_size (trees h self) - 1)) nd (Some nd))"
      using v nc True ch cn
      by (auto simp: delete_def Let_def h1_def frames split: option.splits)
    have pn: "node_parent (nodes h nd) = None"
      using l True by (simp add: linked_in_def)
    show ?thesis
      unfolding h' d
      using True cn h1 pn
      by (auto simp: p frames len_def root_def parent_def validate_def make_position_def)
  next
    case False
    then obtain q where q: "node_parent (nodes h nd) = Some q"
      using l by (auto simp: linked_in_def split: option.splits)
    have qn: "q \<noteq> nd" using q np by auto
    have d: "delete h self p =
      (Inr (node_element (nodes h nd)),
       set_parent (set_size
         (if node_left (nodes h q) = Some nd then set_left h1 q child else set_right h1 q child)
         self (tree_size (trees h self) - 1)) nd (Some nd))"
      using v nc False ch cn q
      by (auto simp: delete_def Let_def h1_def frames split: option.splits)
    show ?thesis
      unfolding h' d
      using False cn h1 q qn np
      by (auto simp: p frames len_def validate_def parent_def make_position_def)
  qed
qed


theorem delete_single_child_witness:
  "validate two_trees 1 (Some (Position 1 1)) = Inr 1
   \<and> linked_in two_trees 1 1
   \<and> fst (delete two_trees 1 (Some (Position 1 1))) = Inr ''x''
   \<and> len (snd (delete two_trees 1 (Some (Position 1 1)))) 1 = 1
   \<and> root (snd (delete two_trees 1 (Some (Position 1 1)))) 1 = Some (Position 1 2)
   \<and> parent (snd (delete two_trees 1 (Some (Position 1 1)))) 1 (Some (Position 1 2)) = Inr None
   \<and> validate (snd (delete two_trees 1 (Some (Position 1 1)))) 1 (Some (Position 1 1))
       = Inl (ValueError ''p is no longer valid'')
   \<and> validate three_levels 0 (Some (Position 0 1)) = Inr 1
   \<and> linked_in three_levels 0 1
   \<and> fst (delete three_levels 0 (Some (Position 0 1))) = Inr ''b''
   \<and> len (snd (delete three_levels 0 (Some (Position 0 1)))) 0 = 4
   \<and> node_left (nodes (snd (delete three_levels 0 (Some (Position 0 1)))) 0) = Some 3
   \<and> parent (snd (delete three_levels 0 (Some (Position 0 1)))) 0 (Some (Position 0 3))
       = Inr (Some (Position 0 0))"
proof -
  have v: "validate two_trees 1 (Some (Position 1 1)) = Inr 1"
    and l: "linked_in two_trees 1 1"
    and c: "\<not> (node_left (nodes two_trees 1) \<noteq> None \<and> node_right (nodes two_trees 1) \<noteq> None)"
    and ch: "Some 2 = (if node_left (nodes two_trees 1) \<noteq> None then node_left (nodes two_trees 1)
                       else node_right (nodes two_trees 1))"
    by (simp_all add: validate_def linked_in_def two_trees_eval)
  have v': "validate three_levels 0 (Some (Position 0 1)) = Inr 1"
    and l': "linked_in three_levels 0 1"
    and c': "\<not> (node_left (nodes three_levels 1) \<noteq> None
               \<and> node_right (nodes three_levels 1) \<noteq> None)"
    and ch': "Some 3 = (if node_left (nodes three_levels 1) \<noteq> None
                        then node_left (nodes three_levels 1)
                        else node_right (nodes three_levels 1))"
    by (simp_all add: validate_def linked_in_def three_levels_eval)
  show ?thesis
    using delete_single_child [OF v c l ch refl] delete_single_child [OF v' c' l' ch' refl]
      v l v' l'
    by (simp add: two_trees_eval three_levels_eval len_def make_position_def parent_def)
qed

section \<open>Attaching two trees at a leaf\<close>




section \<open>Validation of positions\<close>




section \<open>Inorder traversal\<close>

lemma shape_at_None: "shape_at h None t \<longleftrightarrow> t = Tip"
  by (cases t) simp_all

lemma shape_at_Some:
  "shape_at h (Some a) t \<longleftrightarrow>
     (\<exists>l r. t = Br l a r \<and> shape_at h (node_left (nodes h a)) l
        \<and> shape_at h (node_right (nodes h a)) r)"
  by (cases t) auto

lemma live_Br:
  "live h (Br l x r) \<longleftrightarrow> node_parent (nodes h x) \<noteq> Some x \<and> live h l \<and> live h r"
  by (simp add: live_def)

lemma subtree_inorder_shape:
  assumes "shape_at h (Some a) t" and "live h t"
  shows "subtree_inorder h self (Some (Position self a))
           = Some (map (\<lambda>x. Some (Position self x)) (spec_inorder t), None)"
  using assms
proof (induction t arbitrary: a)
  case Tip
  then show ?case by simp
next
  case (Br l x r)
  from Br.prems have x: "x = a"
    and sl: "shape_at h (node_left (nodes h a)) l"
    and sr: "shape_at h (node_right (nodes h a)) r"
    and v: "node_parent (nodes h a) \<noteq> Some a" and ll: "live h l" and lr: "live h r"
    by (simp_all add: live_Br)
  have L: "left h self (Some (Position self a)) = Inr (make_position self (node_left (nodes h a)))"
    and R: "right h self (Some (Position self a)) = Inr (make_position self (node_right (nodes h a)))"
    using v by (simp_all add: left_def right_def validate_def)
  have Tl: "node_left (nodes h a) = None \<Longrightarrow> l = Tip"
    and Tr: "node_right (nodes h a) = None \<Longrightarrow> r = Tip"
    using sl sr by (simp_all add: shape_at_None)
  have Il: "node_left (nodes h a) = Some b \<Longrightarrow>
      subtree_inorder h self (Some (Position self b))
        = Some (map (\<lambda>x. Some (Position self x)) (spec_inorder l), None)" for b
    using Br.IH(1) [of b] sl ll by simp
  have Ir: "node_right (nodes h a) = Some b \<Longrightarrow>
      subtree_inorder h self (Some (Position self b))
        = Some (map (\<lambda>x. Some (Position self x)) (spec_inorder r), None)" for b
    using Br.IH(2) [of b] sr lr by simp
  show ?case
    by (subst subtree_inorder.simps)
       (cases "node_left (nodes h a)"; cases "node_right (nodes h a)";
        simp add: L R x make_position_def Tl Tr Il Ir)
qed

text \<open>
  C8. On an empty tree \<open>inorder\<close> yields nothing. On a non-empty tree whose links spell
  out the binary tree t below the root, no node of it deprecated, \<open>inorder\<close> returns, and
  yields exactly the positions of \<open>spec_inorder t\<close>: those of the left subtree, then the
  node, then those of the right subtree, recursively. \<open>positions\<close> is \<open>inorder\<close>. For
  the tree with root M, left child E and right child Z the elements come in the order
  E, M, Z.
\<close>

theorem inorder_left_node_right:
  "(is_empty h self = Inr True \<longrightarrow> inorder h self = Some ([], None))
   \<and> (is_empty h self = Inr False \<and> tree_root (trees h self) = Some a \<and> shape_at h (Some a) t
        \<and> live h t \<longrightarrow>
        inorder h self = Some (map (\<lambda>x. Some (Position self x)) (spec_inorder t), None))
   \<and> positions h self = inorder h self"
  using subtree_inorder_shape [of h a t self]
  by (simp add: inorder_def positions_def root_def make_position_def)

theorem inorder_left_node_right_witness:
  "is_empty mez 0 = Inr False \<and> tree_root (trees mez 0) = Some 0
   \<and> shape_at mez (Some 0) (Br (Br Tip 1 Tip) 0 (Br Tip 2 Tip))
   \<and> live mez (Br (Br Tip 1 Tip) 0 (Br Tip 2 Tip))
   \<and> inorder mez 0 = Some ([Some (Position 0 1), Some (Position 0 0), Some (Position 0 2)], None)
   \<and> positions mez 0
       = Some ([Some (Position 0 1), Some (Position 0 0), Some (Position 0 2)], None)
   \<and> map (element mez) [Position 0 1, Position 0 0, Position 0 2] = [''E'', ''M'', ''Z'']"
proof -
  have a: "is_empty mez 0 = Inr False" "tree_root (trees mez 0) = Some 0"
    "shape_at mez (Some 0) (Br (Br Tip 1 Tip) 0 (Br Tip 2 Tip))"
    "live mez (Br (Br Tip 1 Tip) 0 (Br Tip 2 Tip))"
    "map (element mez) [Position 0 1, Position 0 0, Position 0 2] = [''E'', ''M'', ''Z'']"
    by (simp_all add: is_empty_def builtin_len_def len_def live_def element_def mez_eval)
  show ?thesis
    using inorder_left_node_right [of mez 0 0 "Br (Br Tip 1 Tip) 0 (Br Tip 2 Tip)"] a
    by simp
qed

section \<open>Breadth-first traversal\<close>

lemma kids_simps:
  "kids [] = []" "kids (Tip # ts) = kids ts" "kids (Br l x r # ts) = present [l, r] @ kids ts"
  by (simp_all add: kids_def)

lemma lev_simps:
  "lev d [] = []" "lev d (t # ts) = level d t @ lev d ts" "lev d (ts @ us) = lev d ts @ lev d us"
  by (simp_all add: lev_def)

lemma lev_present: "lev d (present ts) = lev d ts"
  by (induction ts) (auto simp: present_def lev_def)

lemma fringe_order_append:
  "fringe_order (ts @ us) = lev 0 ts @ fringe_order (us @ kids ts)"
proof (induction ts arbitrary: us)
  case Nil
  then show ?case by (simp add: kids_simps lev_simps)
next
  case (Cons t ts)
  show ?case
  proof (cases t)
    case Tip
    then show ?thesis using Cons.IH [of us] by (simp add: kids_simps lev_simps)
  next
    case (Br l x r)
    have "fringe_order ((t # ts) @ us) = x # fringe_order (ts @ (us @ present [l, r]))"
      by (simp add: Br)
    also have "\<dots> = x # lev 0 ts @ fringe_order ((us @ present [l, r]) @ kids ts)"
      by (simp only: Cons.IH)
    finally show ?thesis by (simp add: Br kids_simps lev_simps)
  qed
qed

lemma fringe_order_step: "fringe_order ts = lev 0 ts @ fringe_order (kids ts)"
  using fringe_order_append [of ts "[]"] by simp

lemma lev_Suc: "lev (Suc d) ts = lev d (kids ts)"
proof (induction ts)
  case Nil
  then show ?case by (simp add: kids_simps lev_simps)
next
  case (Cons t ts)
  then show ?case
    by (cases t) (simp_all add: kids_simps lev_simps lev_present)
qed

lemma fringe_order_Tips: "\<forall>t\<in>set ts. t = Tip \<Longrightarrow> fringe_order ts = []"
  by (induction ts) auto

lemma levels_0: "levels t = 0 \<longleftrightarrow> t = Tip"
  by (cases t) simp_all

lemma levels_kids:
  assumes "\<forall>t\<in>set ts. levels t \<le> Suc n"
  shows "\<forall>t\<in>set (kids ts). levels t \<le> n"
  using assms
proof (induction ts)
  case Nil
  then show ?case by (simp add: kids_simps)
next
  case (Cons t ts)
  then show ?case
    by (cases t) (auto simp: kids_simps present_def)
qed

lemma fringe_order_levels:
  assumes "\<forall>t\<in>set ts. levels t \<le> n"
  shows "fringe_order ts = concat (map (\<lambda>d. lev d ts) [0..<n])"
  using assms
proof (induction n arbitrary: ts)
  case 0
  then have "\<forall>t\<in>set ts. t = Tip" by (simp add: levels_0)
  then show ?case by (simp add: fringe_order_Tips)
next
  case (Suc n)
  have "fringe_order (kids ts) = concat (map (\<lambda>d. lev d (kids ts)) [0..<n])"
    using Suc.prems by (intro Suc.IH levels_kids)
  then have "fringe_order ts = lev 0 ts @ concat (map (\<lambda>d. lev (Suc d) ts) [0..<n])"
    using fringe_order_step [of ts] by (simp add: lev_Suc)
  also have "\<dots> = concat (map (\<lambda>d. lev d ts) [0..<Suc n])"
    by (simp add: upt_conv_Cons map_Suc_upt [symmetric] comp_def del: upt_Suc)
  finally show ?case .
qed

lemma fringe_order_levelorder: "fringe_order [t] = spec_levelorder t"
  using fringe_order_levels [of "[t]" "levels t"]
  by (simp add: spec_levelorder_def lev_def)


lemma fringe_enqueue_all_append: "fringe_enqueue_all q xs = q @ xs"
  unfolding fringe_enqueue_all_def
  by (induction xs arbitrary: q) (simp_all add: fringe_enqueue_def)

lemma children_shape:
  assumes "shape_at h (Some a) (Br l x r)" and "node_parent (nodes h a) \<noteq> Some a"
  shows "\<exists>cs. children h self (Some (Position self a))
                = (map (\<lambda>x. Some (Position self x)) cs, None)
             \<and> list_all2 (\<lambda>a t. shape_at h (Some a) t) cs (present [l, r])"
proof -
  from assms have sl: "shape_at h (node_left (nodes h a)) l"
    and sr: "shape_at h (node_right (nodes h a)) r" by simp_all
  have L: "left h self (Some (Position self a)) = Inr (make_position self (node_left (nodes h a)))"
    and R: "right h self (Some (Position self a)) = Inr (make_position self (node_right (nodes h a)))"
    using assms(2) by (simp_all add: left_def right_def validate_def)
  define cs where "cs = (case node_left (nodes h a) of None \<Rightarrow> [] | Some b \<Rightarrow> [b])
                      @ (case node_right (nodes h a) of None \<Rightarrow> [] | Some b \<Rightarrow> [b])"
  have "children h self (Some (Position self a)) = (map (\<lambda>x. Some (Position self x)) cs, None)"
    by (cases "node_left (nodes h a)"; cases "node_right (nodes h a)";
        simp add: children_def L R cs_def make_position_def)
  moreover have "list_all2 (\<lambda>a t. shape_at h (Some a) t) cs (present [l, r])"
    using sl sr
    by (cases "node_left (nodes h a)"; cases "node_right (nodes h a)"; cases l; cases r;
        simp add: cs_def present_def)
  ultimately show ?thesis by blast
qed

lemma live_present: "live h l \<Longrightarrow> live h r \<Longrightarrow> \<forall>t\<in>set (present [l, r]). live h t"
  by (auto simp: present_def)

lemma bfs_loop_shapes:
  assumes "list_all2 (\<lambda>a t. shape_at h (Some a) t) as ts" and "\<forall>t\<in>set ts. live h t"
  shows "bfs_loop h self (map (\<lambda>x. Some (Position self x)) as)
           = Some (map (\<lambda>x. Some (Position self x)) (fringe_order ts), None)"
  using assms
proof (induction ts arbitrary: as rule: fringe_order.induct)
  case 1
  then show ?case by (subst bfs_loop.simps) simp
next
  case (2 q)
  then show ?case by (auto simp: list_all2_Cons2)
next
  case (3 l x r q)
  from "3.prems"(1) obtain as' where as: "as = x # as'"
    and s: "shape_at h (Some x) (Br l x r)"
    and rest: "list_all2 (\<lambda>a t. shape_at h (Some a) t) as' q"
    by (auto simp: list_all2_Cons2)
  from "3.prems"(2) have v: "node_parent (nodes h x) \<noteq> Some x"
    and ll: "live h l" and lr: "live h r" and lq: "\<forall>t\<in>set q. live h t"
    by (simp_all add: live_Br)
  obtain cs where c: "children h self (Some (Position self x))
                        = (map (\<lambda>x. Some (Position self x)) cs, None)"
    and cl: "list_all2 (\<lambda>a t. shape_at h (Some a) t) cs (present [l, r])"
    using children_shape [OF s v, of self] by blast
  have "bfs_loop h self (map (\<lambda>x. Some (Position self x)) (as' @ cs))
          = Some (map (\<lambda>x. Some (Position self x)) (fringe_order (q @ present [l, r])), None)"
    using rest cl lq live_present [OF ll lr]
    by (intro "3.IH") (auto intro: list_all2_appendI)
  then show ?case
    by (subst bfs_loop.simps) (simp add: as c fringe_enqueue_all_append)
qed

text \<open>
  C9. On an empty tree \<open>breadthfirst\<close> yields nothing. On a non-empty tree whose links
  spell out the binary tree t below the root, no node of it deprecated, \<open>breadthfirst\<close>
  returns, and yields the positions in the order of the FIFO fringe seeded with the
  root (\<open>fringe_order\<close>: dequeue, yield, enqueue the children left to right), which is
  level order: the nodes of depth 0, then depth 1, and so on, each level left to right.
  For the three-level tree the root comes first, then its two children left before
  right, then the grandchildren. The children of a position and the queue are modelled
  from the spec.
\<close>

theorem breadthfirst_level_order:
  "(is_empty h self = Inr True \<longrightarrow> breadthfirst h self = Some ([], None))
   \<and> (is_empty h self = Inr False \<and> tree_root (trees h self) = Some a \<and> shape_at h (Some a) t
        \<and> live h t \<longrightarrow>
        breadthfirst h self = Some (map (\<lambda>x. Some (Position self x)) (fringe_order [t]), None)
      \<and> fringe_order [t] = spec_levelorder t)"
  using bfs_loop_shapes [of h "[a]" "[t]" self]
  by (simp add: breadthfirst_def fringe_enqueue_def root_def make_position_def
      fringe_order_levelorder)

theorem breadthfirst_level_order_witness:
  "is_empty three_levels 0 = Inr False \<and> tree_root (trees three_levels 0) = Some 0
   \<and> shape_at three_levels (Some 0) (Br (Br (Br Tip 3 Tip) 1 Tip) 0 (Br Tip 2 (Br Tip 4 Tip)))
   \<and> live three_levels (Br (Br (Br Tip 3 Tip) 1 Tip) 0 (Br Tip 2 (Br Tip 4 Tip)))
   \<and> breadthfirst three_levels 0
       = Some ([Some (Position 0 0), Some (Position 0 1), Some (Position 0 2),
                Some (Position 0 3), Some (Position 0 4)], None)
   \<and> map (element three_levels)
        [Position 0 0, Position 0 1, Position 0 2, Position 0 3, Position 0 4]
       = [''a'', ''b'', ''c'', ''d'', ''e'']"
proof -
  have a: "is_empty three_levels 0 = Inr False" "tree_root (trees three_levels 0) = Some 0"
    "shape_at three_levels (Some 0) (Br (Br (Br Tip 3 Tip) 1 Tip) 0 (Br Tip 2 (Br Tip 4 Tip)))"
    "live three_levels (Br (Br (Br Tip 3 Tip) 1 Tip) 0 (Br Tip 2 (Br Tip 4 Tip)))"
    "map (element three_levels)
        [Position 0 0, Position 0 1, Position 0 2, Position 0 3, Position 0 4]
       = [''a'', ''b'', ''c'', ''d'', ''e'']"
    by (simp_all add: is_empty_def builtin_len_def len_def live_def element_def
        three_levels_eval)
  have s: "spec_levelorder (Br (Br (Br Tip 3 Tip) 1 Tip) 0 (Br Tip 2 (Br Tip 4 Tip)))
             = [0, 1, 2, 3, 4]"
    by (simp add: spec_levelorder_def eval_nat_numeral upt_rec)
  show ?thesis
    using breadthfirst_level_order [of three_levels 0 0
        "Br (Br (Br Tip 3 Tip) 1 Tip) 0 (Br Tip 2 (Br Tip 4 Tip))"] a s
    by simp
qed

section \<open>The front of the queue\<close>

lemma list_slot_less: "list_slot n i = Some k \<Longrightarrow> k < n"
  by (auto simp: list_slot_def split: if_splits)

lemma resize_loop_ok:
  assumes "old \<noteq> []" and "0 \<le> walk" and "walk < int (length old)"
    and "0 \<le> k" and "nat k + n \<le> length dat"
  shows "snd (resize_loop old n k walk dat) = None"
  using assms
proof (induction n arbitrary: k walk dat)
  case 0
  then show ?case by simp
next
  case (Suc n)
  have i: "py_index old walk = Inr (old ! nat walk)"
    using Suc.prems by (simp add: py_index_def list_slot_def)
  have s: "py_store dat k (old ! nat walk) = Inr (dat[nat k := old ! nat walk])"
    using Suc.prems by (auto simp: py_store_def list_slot_def)
  have m: "0 \<le> (1 + walk) mod int (length old)" "(1 + walk) mod int (length old) < int (length old)"
    using Suc.prems by simp_all
  have "snd (resize_loop old n (k + 1) ((1 + walk) mod int (length old))
               (dat[nat k := old ! nat walk])) = None"
    using Suc.prems m by (intro Suc.IH) (simp_all add: nat_add_distrib)
  then show ?case using Suc.prems by (simp add: i s)
qed

lemma resize_ok:
  assumes "queue_data q \<noteq> []" and "0 \<le> queue_front q"
    and "queue_front q < int (length (queue_data q))"
    and "queue_size q \<le> capacity"
  shows "fst (resize q capacity) = Inr ()"
    and "queue_size (snd (resize q capacity)) = queue_size q"
proof -
  have "snd (resize_loop (queue_data q) (nat (queue_size q)) 0 (queue_front q)
          (replicate (nat capacity) None)) = None"
    using assms by (intro resize_loop_ok) simp_all
  then show "fst (resize q capacity) = Inr ()"
    and "queue_size (snd (resize q capacity)) = queue_size q"
    by (cases "resize_loop (queue_data q) (nat (queue_size q)) 0 (queue_front q)
          (replicate (nat capacity) None)"; simp add: resize_def)+
qed

lemma dequeue_front:
  assumes ne: "\<not> is_empty_queue q"
    and s: "list_slot (length (queue_data q)) (queue_front q) = Some k"
  shows "fst (dequeue q) = Inr (queue_data q ! k)"
    and "len_queue (snd (dequeue q)) = len_queue q - 1"
proof -
  have k: "k < length (queue_data q)" using s by (rule list_slot_less)
  define q3 where "q3 = q\<lparr>queue_data := (queue_data q)[k := None],
      queue_front := (queue_front q + 1) mod int (length (queue_data q)),
      queue_size := queue_size q - 1\<rparr>"
  have r: "0 < queue_size q3 \<and> queue_size q3 < int (length (queue_data q3)) div 4 \<Longrightarrow>
      fst (resize q3 (int (length (queue_data q3)) div 2)) = Inr ()
    \<and> queue_size (snd (resize q3 (int (length (queue_data q3)) div 2))) = queue_size q3"
  proof -
    have L: "0 < int (length (queue_data q))" using k by arith
    have N: "queue_data q \<noteq> []" using L by auto
    assume "0 < queue_size q3 \<and> queue_size q3 < int (length (queue_data q3)) div 4"
    then show ?thesis
      using k N pos_mod_sign [OF L, of "queue_front q + 1"]
        pos_mod_bound [OF L, of "queue_front q + 1"]
      by (intro conjI resize_ok) (auto simp: q3_def)
  qed
  have "fst (dequeue q) = Inr (queue_data q ! k)
      \<and> len_queue (snd (dequeue q)) = len_queue q - 1"
    using ne s k r
    by (auto simp: dequeue_def py_index_def py_store_def Let_def q3_def [symmetric] len_queue_def
        split: prod.splits sum.splits) (auto simp: q3_def)
  then show "fst (dequeue q) = Inr (queue_data q ! k)"
    and "len_queue (snd (dequeue q)) = len_queue q - 1" by simp_all
qed

lemma queue3_eval:
  "queue_data queue3 = [Some ''p'', Some ''q'', Some ''r'', None, None, None, None, None, None, None]"
  "queue_size queue3 = 3" "queue_front queue3 = 0"
  by (simp_all add: queue3_def enqueue_def init_queue_def DEFAULT_CAPACITY_def py_store_def
      list_slot_def eval_nat_numeral)


lemma length_resize_loop:
  "length (fst (resize_loop old n k walk dat)) = length dat"
  by (induction n arbitrary: k walk dat)
     (auto simp: py_store_def split: sum.splits option.splits)

lemma resize_inv:
  assumes "queue_inv q" and "queue_size q \<le> capacity" and "0 < capacity"
  shows "fst (resize q capacity) = Inr ()"
    and "queue_size (snd (resize q capacity)) = queue_size q"
    and "queue_front (snd (resize q capacity)) = 0"
    and "length (queue_data (snd (resize q capacity))) = nat capacity"
proof -
  have N: "queue_data q \<noteq> []" using assms(1) by (auto simp: queue_inv_def)
  have l: "snd (resize_loop (queue_data q) (nat (queue_size q)) 0 (queue_front q)
          (replicate (nat capacity) None)) = None"
    using assms N by (intro resize_loop_ok) (simp_all add: queue_inv_def)
  have n: "length (fst (resize_loop (queue_data q) (nat (queue_size q)) 0 (queue_front q)
          (replicate (nat capacity) None))) = nat capacity"
    by (simp add: length_resize_loop)
  show "fst (resize q capacity) = Inr ()"
    and "queue_size (snd (resize q capacity)) = queue_size q"
    and "queue_front (snd (resize q capacity)) = 0"
    and "length (queue_data (snd (resize q capacity))) = nat capacity"
    using l n
    by (cases "resize_loop (queue_data q) (nat (queue_size q)) 0 (queue_front q)
          (replicate (nat capacity) None)"; simp add: resize_def)+
qed

lemma init_queue_inv: "queue_inv init_queue"
  by (simp add: queue_inv_def init_queue_def DEFAULT_CAPACITY_def)

lemma enqueue_inv:
  assumes "queue_inv q"
  shows "fst (enqueue q e) = Inr () \<and> queue_inv (snd (enqueue q e))
       \<and> len_queue (snd (enqueue q e)) = len_queue q + 1"
proof (cases "queue_size q = int (length (queue_data q))")
  case True
  have c: "queue_size q \<le> 2 * int (length (queue_data q))" "0 < 2 * int (length (queue_data q))"
    using assms True by (auto simp: queue_inv_def)
  note r = resize_inv [OF assms c]
  define q1 where "q1 = snd (resize q (2 * int (length (queue_data q))))"
  have r1: "resize q (2 * int (length (queue_data q))) = (Inr (), q1)"
    using r(1) by (simp add: q1_def prod_eq_iff)
  have f: "queue_size q1 = queue_size q" "queue_front q1 = 0"
    "length (queue_data q1) = 2 * length (queue_data q)"
    using r by (simp_all add: q1_def nat_mult_distrib)
  have p: "0 < length (queue_data q)" using assms by (auto simp: queue_inv_def)
  have "0 < length (queue_data q1)" using f p by arith
  then have n1: "queue_data q1 \<noteq> []" by simp
  show ?thesis
    using True f p n1 assms
    by (simp add: enqueue_def r1 Let_def py_store_def list_slot_def queue_inv_def len_queue_def)
next
  case False
  have p: "0 < int (length (queue_data q))" using assms by (auto simp: queue_inv_def)
  have m: "0 \<le> (queue_front q + queue_size q) mod int (length (queue_data q))"
    "(queue_front q + queue_size q) mod int (length (queue_data q)) < int (length (queue_data q))"
    using pos_mod_sign [OF p] pos_mod_bound [OF p] by simp_all
  show ?thesis
    using False m p assms
    by (simp add: enqueue_def Let_def py_store_def list_slot_def queue_inv_def len_queue_def)
qed

lemma dequeue_inv:
  assumes "queue_inv q" and "\<not> is_empty_queue q"
  shows "queue_inv (snd (dequeue q))"
proof -
  have p: "0 < int (length (queue_data q))" using assms by (auto simp: queue_inv_def)
  have s: "list_slot (length (queue_data q)) (queue_front q) = Some (nat (queue_front q))"
    using assms by (simp add: list_slot_def queue_inv_def)
  define q3 where "q3 = q\<lparr>queue_data := (queue_data q)[nat (queue_front q) := None],
      queue_front := (queue_front q + 1) mod int (length (queue_data q)),
      queue_size := queue_size q - 1\<rparr>"
  have i3: "queue_inv q3"
    using assms p pos_mod_sign [OF p, of "queue_front q + 1"]
      pos_mod_bound [OF p, of "queue_front q + 1"]
    by (simp add: q3_def queue_inv_def is_empty_queue_def)
  have d: "dequeue q =
    (if 0 < queue_size q3 \<and> queue_size q3 < int (length (queue_data q3)) div 4
     then (case resize q3 (int (length (queue_data q3)) div 2) of
             (Inl e, q4) \<Rightarrow> (Inl e, q4)
           | (Inr u, q4) \<Rightarrow> (Inr (queue_data q ! nat (queue_front q)), q4))
     else (Inr (queue_data q ! nat (queue_front q)), q3))"
    using assms s p
    by (simp add: dequeue_def py_index_def py_store_def Let_def q3_def)
  show ?thesis
  proof (cases "0 < queue_size q3 \<and> queue_size q3 < int (length (queue_data q3)) div 4")
    case True
    then have c: "queue_size q3 \<le> int (length (queue_data q3)) div 2"
      "0 < int (length (queue_data q3)) div 2" by linarith+
    note r = resize_inv [OF i3 c]
    have "queue_inv (snd (resize q3 (int (length (queue_data q3)) div 2)))"
      using r c i3 by (simp add: queue_inv_def)
    then show ?thesis
      using True r(1)
      by (cases "resize q3 (int (length (queue_data q3)) div 2)") (simp add: d)
  next
    case False
    have "dequeue q = (Inr (queue_data q ! nat (queue_front q)), q3)"
      by (simp only: d if_not_P [OF False])
    then show ?thesis using i3 by simp
  qed
qed

text \<open>
  C10. \<open>first\<close> leaves the queue as it is: same list, same size, same front. On an
  empty queue it raises Empty. What it returns is what a subsequent \<open>dequeue\<close> returns;
  on a non-empty queue that satisfies the representation invariant this is the element
  stored at the front index, and that \<open>dequeue\<close> takes the size down by one.
\<close>

theorem first_peek:
  "snd (first q) = q
   \<and> (is_empty_queue q \<longrightarrow> fst (first q) = Inl (Empty ''Queue is empty''))
   \<and> fst (dequeue (snd (first q))) = fst (first q)
   \<and> (\<not> is_empty_queue q \<and> queue_inv q \<longrightarrow>
        fst (first q) = Inr (queue_data q ! nat (queue_front q))
      \<and> len_queue (snd (dequeue (snd (first q)))) = len_queue q - 1)"
proof -
  have u: "snd (first q) = q" by (simp add: first_def)
  have e: "is_empty_queue q \<Longrightarrow> fst (dequeue q) = fst (first q)"
    by (simp add: dequeue_def first_def)
  have n: "fst (dequeue q) = fst (first q)" if ne: "\<not> is_empty_queue q"
  proof (cases "list_slot (length (queue_data q)) (queue_front q)")
    case None
    then show ?thesis using ne by (simp add: dequeue_def first_def py_index_def)
  next
    case (Some k)
    then show ?thesis
      using dequeue_front(1) [OF ne Some] ne by (simp add: first_def py_index_def)
  qed
  have i: "fst (first q) = Inr (queue_data q ! nat (queue_front q))
      \<and> len_queue (snd (dequeue q)) = len_queue q - 1"
    if ne: "\<not> is_empty_queue q" and inv: "queue_inv q"
  proof -
    have s: "list_slot (length (queue_data q)) (queue_front q) = Some (nat (queue_front q))"
      using inv by (simp add: list_slot_def queue_inv_def)
    show ?thesis
      using dequeue_front(2) [OF ne s] ne s by (simp add: first_def py_index_def)
  qed
  show ?thesis using u e n i by (auto simp: first_def)
qed

theorem first_peek_witness:
  "\<not> is_empty_queue queue3 \<and> queue_inv queue3
   \<and> first queue3 = (Inr (Some ''p''), queue3)
   \<and> fst (dequeue queue3) = Inr (Some ''p'')
   \<and> len_queue (snd (dequeue queue3)) = 2
   \<and> is_empty_queue (init_queue :: string array_queue)
   \<and> first (init_queue :: string array_queue) = (Inl (Empty ''Queue is empty''), init_queue)"
proof -
  have a: "\<not> is_empty_queue queue3" "queue_inv queue3" "len_queue queue3 = 3"
    "queue_data queue3 ! nat (queue_front queue3) = Some ''p''"
    by (simp_all add: is_empty_queue_def queue_inv_def len_queue_def queue3_eval)
  have b: "is_empty_queue (init_queue :: string array_queue)"
    by (simp add: is_empty_queue_def init_queue_def)
  show ?thesis
    using first_peek [of queue3] first_peek [of "init_queue :: string array_queue"] a b
    by (auto simp: prod_eq_iff)
qed

end
